theory Spec2Isabelle
  imports Main "HOL-Library.Word"
begin

section \<open>GPU power-limit control: the data model\<close>

text \<open>
  The program (main.go) drives the vendor management library NVML: it reads each
  device's power limit, clamps a requested limit into the range the driver reports and
  writes it back. Watt and milliwatt values are Go \<^verbatim>\<open>uint32\<close>: arithmetic on them wraps
  around at \<open>2 ^ 32\<close>. Device indices are Go \<^verbatim>\<open>int\<close>.
\<close>

type_synonym u32 = "32 word"

text \<open>\<^verbatim>\<open>type GPUInfo struct\<close> (main.go, lines 28-36).\<close>

record GPUInfo =
  Index :: int
  Name :: string
  PowerLimit :: u32
  MinLimit :: u32
  MaxLimit :: u32
  PowerUsage :: u32
  Supported :: bool

text \<open>The zero value of the struct: \<^verbatim>\<open>GPUInfo{}\<close>, and every slot of \<^verbatim>\<open>make([]GPUInfo, n)\<close>.\<close>

definition GPUInfo_zero :: GPUInfo where
  "GPUInfo_zero =
     \<lparr>Index = 0, Name = [], PowerLimit = 0, MinLimit = 0, MaxLimit = 0,
      PowerUsage = 0, Supported = False\<rparr>"

text \<open>
  \<^verbatim>\<open>type PowerLimitRequest struct\<close> (lines 39-43). \<open>ManualLimits\<close> is a Go
  \<^verbatim>\<open>map[int]uint32\<close>; the handler only ranges over it, so it is kept as the list of its
  entries in the order the runtime happens to yield them. A Go map has each key once:
  the keys of the list are distinct, in an order the program cannot choose.
\<close>

record PowerLimitRequest =
  Mode :: string
  ReqPowerLimit :: u32
  ManualLimits :: "(int \<times> u32) list"

subsection \<open>The device gateway (NVML)\<close>

text \<open>
  The library is not part of the repository. Every call returns a value together with
  a status, \<^verbatim>\<open>nvml.Return\<close>; the program compares the status with \<^verbatim>\<open>nvml.SUCCESS\<close> only.
  The outcome of each query is a parameter of the model: a field of the device or of
  the library state, as a pair (value, status) like the Go binding returns it.
\<close>

datatype Return = SUCCESS | ERROR nat

datatype EnableState = FEATURE_DISABLED | FEATURE_ENABLED

text \<open>
  One device as the gateway presents it. \<open>set_ret\<close> is the driver's verdict on a
  write of a given milliwatt value; \<open>stored\<close> gives the limit the driver keeps after an
  accepted write, from the limit it held and the value written (a driver may round).
\<close>

record device =
  name_q :: "string \<times> Return"
  mode_q :: "EnableState \<times> Return"
  limit_q :: "u32 \<times> Return"
  constraints_q :: "(u32 \<times> u32) \<times> Return"
  usage_q :: "u32 \<times> Return"
  set_ret :: "u32 \<Rightarrow> Return"
  stored :: "u32 \<Rightarrow> u32 \<Rightarrow> u32"

text \<open>
  The library state. A device handle is modelled by the index it was looked up with.
  \<open>count_q\<close> is what \<^verbatim>\<open>DeviceGetCount\<close> returns; the binding converts an unsigned C
  value, so the count is a natural number. \<open>writes\<close> records every call of
  \<^verbatim>\<open>DeviceSetPowerManagementLimit\<close>, accepted or not, oldest first. Queries leave the
  library state as it is, and a write touches only the device written to.
\<close>

record nvml =
  init_ret :: Return
  count_q :: "nat \<times> Return"
  handle_ret :: "int \<Rightarrow> Return"
  dev :: "int \<Rightarrow> device"
  writes :: "(int \<times> u32) list"

definition Init :: "nvml \<Rightarrow> Return" where
  "Init nv = init_ret nv"

definition DeviceGetCount :: "nvml \<Rightarrow> nat \<times> Return" where
  "DeviceGetCount nv = count_q nv"

definition DeviceGetHandleByIndex :: "nvml \<Rightarrow> int \<Rightarrow> int \<times> Return" where
  "DeviceGetHandleByIndex nv index = (index, handle_ret nv index)"

definition DeviceGetName :: "nvml \<Rightarrow> int \<Rightarrow> string \<times> Return" where
  "DeviceGetName nv h = name_q (dev nv h)"

definition DeviceGetPowerManagementMode :: "nvml \<Rightarrow> int \<Rightarrow> EnableState \<times> Return" where
  "DeviceGetPowerManagementMode nv h = mode_q (dev nv h)"

definition DeviceGetPowerManagementLimit :: "nvml \<Rightarrow> int \<Rightarrow> u32 \<times> Return" where
  "DeviceGetPowerManagementLimit nv h = limit_q (dev nv h)"

definition DeviceGetPowerManagementLimitConstraints ::
    "nvml \<Rightarrow> int \<Rightarrow> (u32 \<times> u32) \<times> Return" where
  "DeviceGetPowerManagementLimitConstraints nv h = constraints_q (dev nv h)"

definition DeviceGetPowerUsage :: "nvml \<Rightarrow> int \<Rightarrow> u32 \<times> Return" where
  "DeviceGetPowerUsage nv h = usage_q (dev nv h)"

text \<open>
  Modelled from the spec: the write operation of the Device Gateway
  (\<^verbatim>\<open>setPowerLimitMilliwatts(i, value) -> success|failure\<close>, section 4.1), whose code is
  the vendor library's. The call is recorded; when the driver accepts it, the limit the
  device reports afterwards is \<open>stored\<close> of the old limit and the value written, and
  nothing else of the device changes. A gateway that echoes exactly, as the spec's
  tests use, has \<open>stored d old v = v\<close>.
\<close>

definition DeviceSetPowerManagementLimit :: "nvml \<Rightarrow> int \<Rightarrow> u32 \<Rightarrow> Return \<times> nvml" where
  "DeviceSetPowerManagementLimit nv h limitMW =
     (let d = dev nv h;
          ret = set_ret d limitMW;
          nv1 = nv\<lparr>writes := writes nv @ [(h, limitMW)]\<rparr>
      in if ret = SUCCESS
         then (ret, nv1\<lparr>dev := (dev nv)
                 (h := d\<lparr>limit_q := (stored d (fst (limit_q d)) limitMW, snd (limit_q d))\<rparr>)\<rparr>)
         else (ret, nv1))"

subsection \<open>Errors, log lines and the process state\<close>

text \<open>
  The errors built with \<^verbatim>\<open>fmt.Errorf\<close>, one constructor per message; the argument is
  the status the message prints.
\<close>

datatype error =
    InitFailed Return
  | CountFailed Return
  | HandleFailed Return
  | ModeFailed Return
  | NotSupported
  | LimitFailed Return
  | ConstraintsFailed Return
  | SetFailed Return

text \<open>The lines written with \<^verbatim>\<open>log.Printf\<close>, one constructor per format string.\<close>

datatype log_event =
    LogGetInfoFailed int error
  | LogBelowMinimum int u32 u32 u32
  | LogAboveMaximum int u32 u32 u32
  | LogSetFailed int error
  | LogNoSuchGPU int
  | LogRefreshFailed error

text \<open>
  The state the functions act on: the library, the global \<^verbatim>\<open>gpuCache\<close> (line 46) and
  the log stream.
\<close>

record state =
  lib :: nvml
  gpuCache :: "GPUInfo list"
  logged :: "log_event list"

section \<open>The operations\<close>

text \<open>
  \<^verbatim>\<open>getGPUInfo\<close> (lines 108-158). It only reads. Go returns the record built so far
  together with the error, so the result is a pair.
\<close>

definition getGPUInfo :: "nvml \<Rightarrow> int \<Rightarrow> GPUInfo \<times> error option" where
  "getGPUInfo nv index =
     (let info = GPUInfo_zero\<lparr>Index := index\<rparr>;
          (device, ret) = DeviceGetHandleByIndex nv index
      in if ret \<noteq> SUCCESS then (info, Some (HandleFailed ret))
      else
        let (name, ret) = DeviceGetName nv device;
            name = (if ret \<noteq> SUCCESS then ''Unknown'' else name);
            info = info\<lparr>Name := name\<rparr>;
            (mode, ret) = DeviceGetPowerManagementMode nv device
        in if ret \<noteq> SUCCESS then (info, Some (ModeFailed ret))
        else
          let info = info\<lparr>Supported := (mode = FEATURE_ENABLED)\<rparr>
          in if \<not> Supported info then (info, None)
          else
            let (currentLimit, ret) = DeviceGetPowerManagementLimit nv device
            in if ret \<noteq> SUCCESS then (info, Some (LimitFailed ret))
            else
              let info = info\<lparr>PowerLimit := currentLimit div 1000\<rparr>;
                  ((minLimit, maxLimit), ret) =
                     DeviceGetPowerManagementLimitConstraints nv device
              in if ret \<noteq> SUCCESS then (info, Some (ConstraintsFailed ret))
              else
                let info = info\<lparr>MinLimit := minLimit div 1000,
                                 MaxLimit := maxLimit div 1000\<rparr>;
                    (power, ret) = DeviceGetPowerUsage nv device;
                    info = (if ret = SUCCESS then info\<lparr>PowerUsage := power div 1000\<rparr>
                            else info)
                in (info, None))"

text \<open>
  \<^verbatim>\<open>setPowerLimit\<close> (lines 161-205). \<open>limitWatts * 1000\<close> is a \<^verbatim>\<open>uint32\<close> product: it
  wraps. Every error return hands back \<^verbatim>\<open>GPUInfo{}\<close>.
\<close>

definition setPowerLimit :: "int \<Rightarrow> u32 \<Rightarrow> state \<Rightarrow> (GPUInfo \<times> error option) \<times> state" where
  "setPowerLimit index limitWatts st =
     (let (device, ret) = DeviceGetHandleByIndex (lib st) index
      in if ret \<noteq> SUCCESS then ((GPUInfo_zero, Some (HandleFailed ret)), st)
      else
        let (mode, ret) = DeviceGetPowerManagementMode (lib st) device
        in if ret \<noteq> SUCCESS then ((GPUInfo_zero, Some (ModeFailed ret)), st)
        else if mode \<noteq> FEATURE_ENABLED then ((GPUInfo_zero, Some NotSupported), st)
        else
          let ((minLimit, maxLimit), ret) =
                 DeviceGetPowerManagementLimitConstraints (lib st) device
          in if ret \<noteq> SUCCESS then ((GPUInfo_zero, Some (ConstraintsFailed ret)), st)
          else
            let limitMW = limitWatts * 1000;
                (limitMW, st) =
                  (if limitMW < minLimit
                   then (minLimit, st\<lparr>logged := logged st @
                           [LogBelowMinimum index limitWatts (minLimit div 1000)
                              (minLimit div 1000)]\<rparr>)
                   else if limitMW > maxLimit
                   then (maxLimit, st\<lparr>logged := logged st @
                           [LogAboveMaximum index limitWatts (maxLimit div 1000)
                              (maxLimit div 1000)]\<rparr>)
                   else (limitMW, st));
                (ret, nv) = DeviceSetPowerManagementLimit (lib st) device limitMW;
                st = st\<lparr>lib := nv\<rparr>
            in if ret \<noteq> SUCCESS then ((GPUInfo_zero, Some (SetFailed ret)), st)
            else (getGPUInfo (lib st) index, st))"

text \<open>
  The loop of \<^verbatim>\<open>initNVML\<close> (lines 95-102): a record that came with an error is logged
  and not stored (\<^verbatim>\<open>continue\<close>), so its slot keeps what \<^verbatim>\<open>make\<close> put there.
\<close>

function initNVML_loop :: "nat \<Rightarrow> nat \<Rightarrow> state \<Rightarrow> state" where
  "initNVML_loop i count st =
     (if i < count then
        (case getGPUInfo (lib st) (int i) of
           (gpuInfo, Some err) \<Rightarrow>
             initNVML_loop (i + 1) count
               (st\<lparr>logged := logged st @ [LogGetInfoFailed (int i) err]\<rparr>)
         | (gpuInfo, None) \<Rightarrow>
             initNVML_loop (i + 1) count (st\<lparr>gpuCache := (gpuCache st)[i := gpuInfo]\<rparr>))
      else st)"
  by pat_completeness auto
termination
  by (relation "measure (\<lambda>(i, count, st). count - i)") auto

text \<open>\<^verbatim>\<open>initNVML\<close> (lines 79-105), the refresh of the cache.\<close>

definition initNVML :: "state \<Rightarrow> error option \<times> state" where
  "initNVML st =
     (let ret = Init (lib st)
      in if ret \<noteq> SUCCESS then (Some (InitFailed ret), st)
      else
        let (count, ret) = DeviceGetCount (lib st)
        in if ret \<noteq> SUCCESS then (Some (CountFailed ret), st)
        else
          let st = st\<lparr>gpuCache := replicate count GPUInfo_zero\<rparr>
          in (None, initNVML_loop 0 count st))"

text \<open>
  The two loops of \<^verbatim>\<open>setPowerLimitsHandler\<close>: mode "all" (lines 291-298) and mode
  "manual" (lines 301-312). \<open>updatedGPUs\<close> is the slice the handler appends to.
\<close>

function all_loop :: "nat \<Rightarrow> nat \<Rightarrow> u32 \<Rightarrow> GPUInfo list \<Rightarrow> state \<Rightarrow> GPUInfo list \<times> state" where
  "all_loop i count powerLimit updatedGPUs st =
     (if i < count then
        (case setPowerLimit (int i) powerLimit st of
           ((updatedInfo, Some err), st') \<Rightarrow>
             all_loop (i + 1) count powerLimit updatedGPUs
               (st'\<lparr>logged := logged st' @ [LogSetFailed (int i) err]\<rparr>)
         | ((updatedInfo, None), st') \<Rightarrow>
             all_loop (i + 1) count powerLimit (updatedGPUs @ [updatedInfo]) st')
      else (updatedGPUs, st))"
  by pat_completeness auto
termination
  by (relation "measure (\<lambda>(i, count, p, u, st). count - i)") auto

fun manual_loop :: "(int \<times> u32) list \<Rightarrow> nat \<Rightarrow> GPUInfo list \<Rightarrow> state \<Rightarrow> GPUInfo list \<times> state" where
  "manual_loop [] count updatedGPUs st = (updatedGPUs, st)"
| "manual_loop ((gpuIndex, powerLimit) # rest) count updatedGPUs st =
     (if gpuIndex \<ge> 0 \<and> gpuIndex < int count then
        (case setPowerLimit gpuIndex powerLimit st of
           ((updatedInfo, Some err), st') \<Rightarrow>
             manual_loop rest count updatedGPUs
               (st'\<lparr>logged := logged st' @ [LogSetFailed gpuIndex err]\<rparr>)
         | ((updatedInfo, None), st') \<Rightarrow>
             manual_loop rest count (updatedGPUs @ [updatedInfo]) st')
      else manual_loop rest count updatedGPUs
             (st\<lparr>logged := logged st @ [LogNoSuchGPU gpuIndex]\<rparr>))"

text \<open>
  The mode switch of \<^verbatim>\<open>setPowerLimitsHandler\<close> (lines 286-317), reached with the decoded
  request and the device count. \<open>None\<close> is the branch that answers "Invalid mode" and
  returns.
\<close>

definition dispatch :: "PowerLimitRequest \<Rightarrow> nat \<Rightarrow> state \<Rightarrow> GPUInfo list option \<times> state" where
  "dispatch request count st =
     (if Mode request = ''all'' then
        (let (updatedGPUs, st') = all_loop 0 count (ReqPowerLimit request) [] st
         in (Some updatedGPUs, st'))
      else if Mode request = ''manual'' then
        (let (updatedGPUs, st') = manual_loop (ManualLimits request) count [] st
         in (Some updatedGPUs, st'))
      else (None, st))"

text \<open>The answer of the handler: the status code and the JSON body.\<close>

datatype body =
    ErrorText string
  | ErrorCount Return
  | Records "GPUInfo list"

datatype response = Response nat body

text \<open>
  \<^verbatim>\<open>setPowerLimitsHandler\<close> (lines 269-327). The argument is the decoded body, \<open>None\<close>
  when decoding failed. No \<^verbatim>\<open>WriteHeader\<close> call means status 200.
\<close>

definition setPowerLimitsHandler :: "PowerLimitRequest option \<Rightarrow> state \<Rightarrow> response \<times> state" where
  "setPowerLimitsHandler decoded st =
     (case decoded of
        None \<Rightarrow> (Response 400 (ErrorText ''Invalid request format''), st)
      | Some request \<Rightarrow>
          let (count, ret) = DeviceGetCount (lib st)
          in if ret \<noteq> SUCCESS then (Response 500 (ErrorCount ret), st)
          else
            (case dispatch request count st of
               (None, st') \<Rightarrow>
                 (Response 400 (ErrorText ''Invalid mode (must be 'all' or 'manual')''), st')
             | (Some updatedGPUs, st') \<Rightarrow>
                 (case initNVML st' of
                    (Some err, st'') \<Rightarrow>
                      (Response 200 (Records updatedGPUs),
                       st''\<lparr>logged := logged st'' @ [LogRefreshFailed err]\<rparr>)
                  | (None, st'') \<Rightarrow> (Response 200 (Records updatedGPUs), st''))))"

section \<open>Notions used to state the properties\<close>

text \<open>
  The clamp as the specification words it (section 4.3, step 4), on milliwatt values
  that are plain numbers: below the minimum gives the minimum, above the maximum gives
  the maximum, anything else is kept.
\<close>

definition spec_clamp :: "nat \<Rightarrow> nat \<Rightarrow> nat \<Rightarrow> nat" where
  "spec_clamp minMW maxMW x = (if x < minMW then minMW else if x > maxMW then maxMW else x)"

text \<open>
  The hardware writes one call of \<open>setPowerLimit\<close> issues: what the call adds to the
  record of writes. It is empty when the call returns before the write.
\<close>

definition write_of :: "state \<Rightarrow> int \<Rightarrow> u32 \<Rightarrow> (int \<times> u32) list" where
  "write_of st i w = drop (length (writes (lib st))) (writes (lib (snd (setPowerLimit i w st))))"

text \<open>
  The value lines 184-195 of \<open>setPowerLimit\<close> leave in \<open>limitMW\<close>, and the condition
  under which the call gets as far as the write: the handle is found, power management
  is reported enabled and the constraints are read.
\<close>

definition clampMW :: "u32 \<Rightarrow> u32 \<Rightarrow> u32 \<Rightarrow> u32" where
  "clampMW minLimit maxLimit limitWatts =
     (let limitMW = limitWatts * 1000
      in if limitMW < minLimit then minLimit
         else if limitMW > maxLimit then maxLimit else limitMW)"

definition reaches_write :: "state \<Rightarrow> int \<Rightarrow> bool" where
  "reaches_write st i =
     (handle_ret (lib st) i = SUCCESS \<and> mode_q (dev (lib st) i) = (FEATURE_ENABLED, SUCCESS) \<and>
      snd (constraints_q (dev (lib st) i)) = SUCCESS)"

text \<open>The call \<open>setPowerLimit i w\<close> returns a nil error.\<close>

definition setter_ok :: "state \<Rightarrow> int \<Rightarrow> u32 \<Rightarrow> bool" where
  "setter_ok st i w = (snd (fst (setPowerLimit i w st)) = None)"

text \<open>
  What a refresh leaves in slot \<open>j\<close> of the cache, and the warning it logs for it:
  the record \<open>getGPUInfo\<close> returned when it came without an error, the zero value and
  a warning otherwise.
\<close>

definition refreshed_entry :: "nvml \<Rightarrow> nat \<Rightarrow> GPUInfo" where
  "refreshed_entry nv j =
     (case getGPUInfo nv (int j) of (info, None) \<Rightarrow> info | (info, Some err) \<Rightarrow> GPUInfo_zero)"

definition refresh_warning :: "nvml \<Rightarrow> nat \<Rightarrow> log_event option" where
  "refresh_warning nv j =
     (case getGPUInfo nv (int j) of (info, None) \<Rightarrow> None
      | (info, Some err) \<Rightarrow> Some (LogGetInfoFailed (int j) err))"

text \<open>
  The error \<open>getGPUInfo\<close> returns for a supported device whose current limit or whose
  constraints cannot be read: the limit is read first.
\<close>

definition read_failure :: "device \<Rightarrow> error" where
  "read_failure d =
     (if snd (limit_q d) \<noteq> SUCCESS then LimitFailed (snd (limit_q d))
      else ConstraintsFailed (snd (constraints_q d)))"

text \<open>The gateway reports the current limit of device \<open>i\<close> within the bounds it reports.\<close>

definition limit_within_constraints :: "nvml \<Rightarrow> int \<Rightarrow> bool" where
  "limit_within_constraints nv i =
     (let d = dev nv i; (minMW, maxMW) = fst (constraints_q d); cur = fst (limit_q d)
      in minMW \<le> cur \<and> cur \<le> maxMW)"

text \<open>The device echoes written limits exactly: after an accepted write it reports the value written.\<close>

definition echoes :: "device \<Rightarrow> bool" where
  "echoes d = (\<forall>old v. stored d old v = v)"

text \<open>
  The lines of the log that the loops of the handler write themselves (the setter adds
  lines about clamping in between), and the lines one entry of a request gives rise to.
\<close>

definition dispatcher_lines :: "log_event list \<Rightarrow> log_event list" where
  "dispatcher_lines es =
     filter (\<lambda>e. case e of LogSetFailed i err \<Rightarrow> True | LogNoSuchGPU i \<Rightarrow> True | _ \<Rightarrow> False) es"

definition failure_line :: "state \<Rightarrow> int \<Rightarrow> u32 \<Rightarrow> log_event list" where
  "failure_line st i w =
     (case snd (fst (setPowerLimit i w st)) of None \<Rightarrow> [] | Some err \<Rightarrow> [LogSetFailed i err])"

definition manual_line :: "state \<Rightarrow> nat \<Rightarrow> int \<times> u32 \<Rightarrow> log_event list" where
  "manual_line st count p =
     (if fst p \<ge> 0 \<and> fst p < int count then failure_line st (fst p) (snd p)
      else [LogNoSuchGPU (fst p)])"

definition manual_write :: "state \<Rightarrow> nat \<Rightarrow> int \<times> u32 \<Rightarrow> (int \<times> u32) list" where
  "manual_write st count p =
     (if fst p \<ge> 0 \<and> fst p < int count then write_of st (fst p) (snd p) else [])"

definition manual_ok :: "state \<Rightarrow> nat \<Rightarrow> int \<times> u32 \<Rightarrow> bool" where
  "manual_ok st count p = (fst p \<ge> 0 \<and> fst p < int count \<and> setter_ok st (fst p) (snd p))"

subsection \<open>Example configurations\<close>

text \<open>
  A device that supports power management, reports a limit of 250 W within bounds of
  100 W and 300 W, accepts every write and echoes it; and a process state over \<open>n\<close>
  devices with an empty cache and log, where handles exist for the indices below \<open>n\<close>.
\<close>

definition echo_device :: device where
  "echo_device =
     \<lparr>name_q = (''GPU'', SUCCESS), mode_q = (FEATURE_ENABLED, SUCCESS),
      limit_q = (250000, SUCCESS), constraints_q = ((100000, 300000), SUCCESS),
      usage_q = (120000, SUCCESS), set_ret = (\<lambda>v. SUCCESS), stored = (\<lambda>old v. v)\<rparr>"

definition demo_state :: "nat \<Rightarrow> (int \<Rightarrow> device) \<Rightarrow> state" where
  "demo_state n devs =
     \<lparr>lib = \<lparr>init_ret = SUCCESS, count_q = (n, SUCCESS),
             handle_ret = (\<lambda>i. if 0 \<le> i \<and> i < int n then SUCCESS else ERROR 2),
             dev = devs, writes = []\<rparr>,
      gpuCache = [], logged = []\<rparr>"

text \<open>One such device.\<close>

definition one_gpu :: state where
  "one_gpu = demo_state 1 (\<lambda>i. echo_device)"

text \<open>Two devices; the current limit of device 1 cannot be read.\<close>

definition unreadable_second :: state where
  "unreadable_second =
     demo_state 2 (\<lambda>i. if i = 1 then echo_device\<lparr>limit_q := (0, ERROR 999)\<rparr> else echo_device)"

text \<open>One device without power management.\<close>

definition unsupported_gpu :: state where
  "unsupported_gpu = demo_state 1 (\<lambda>i. echo_device\<lparr>mode_q := (FEATURE_DISABLED, SUCCESS)\<rparr>)"

text \<open>Three devices; the driver rejects every write to device 1.\<close>

definition locked_second :: state where
  "locked_second =
     demo_state 3 (\<lambda>i. if i = 1 then echo_device\<lparr>set_ret := (\<lambda>v. ERROR 4)\<rparr> else echo_device)"

section \<open>Basic facts about the operations\<close>

declare initNVML_loop.simps [simp del]
declare all_loop.simps [simp del]

lemmas gateway_defs =
  Init_def DeviceGetCount_def DeviceGetHandleByIndex_def DeviceGetName_def
  DeviceGetPowerManagementMode_def DeviceGetPowerManagementLimit_def
  DeviceGetPowerManagementLimitConstraints_def DeviceGetPowerUsage_def
  DeviceSetPowerManagementLimit_def

lemmas demo_defs =
  demo_state_def echo_device_def one_gpu_def unreadable_second_def unsupported_gpu_def
  locked_second_def

lemma getGPUInfo_cong:
  "handle_ret nv index = handle_ret nv' index \<Longrightarrow> dev nv index = dev nv' index \<Longrightarrow>
   getGPUInfo nv index = getGPUInfo nv' index"
  by (simp add: getGPUInfo_def gateway_defs Let_def cong: if_cong)

lemma getGPUInfo_writes [simp]: "getGPUInfo (nv\<lparr>writes := ws\<rparr>) index = getGPUInfo nv index"
  by (rule getGPUInfo_cong) simp_all

lemma getGPUInfo_Index: "Index (fst (getGPUInfo nv index)) = index"
  by (simp add: getGPUInfo_def gateway_defs Let_def split: prod.splits)

lemma setPowerLimit_frame:
  "handle_ret (lib (snd (setPowerLimit i w st))) = handle_ret (lib st)"
  "init_ret (lib (snd (setPowerLimit i w st))) = init_ret (lib st)"
  "count_q (lib (snd (setPowerLimit i w st))) = count_q (lib st)"
  "gpuCache (snd (setPowerLimit i w st)) = gpuCache st"
  by (simp_all add: setPowerLimit_def gateway_defs Let_def split: prod.splits)

lemma setPowerLimit_other:
  "j \<noteq> i \<Longrightarrow> dev (lib (snd (setPowerLimit i w st))) j = dev (lib st) j"
  by (simp add: setPowerLimit_def gateway_defs Let_def split: prod.splits)

lemma setPowerLimit_cong:
  "handle_ret (lib st) i = handle_ret (lib st') i \<Longrightarrow> dev (lib st) i = dev (lib st') i \<Longrightarrow>
   fst (setPowerLimit i w st) = fst (setPowerLimit i w st')"
  by (auto simp add: setPowerLimit_def gateway_defs Let_def split: prod.splits
      intro!: getGPUInfo_cong)

lemma setPowerLimit_writes_append:
  "writes (lib (snd (setPowerLimit i w st))) = writes (lib st) @ write_of st i w"
  by (simp add: write_of_def setPowerLimit_def gateway_defs Let_def split: prod.splits)

lemma write_of_cong:
  "handle_ret (lib st) i = handle_ret (lib st') i \<Longrightarrow> dev (lib st) i = dev (lib st') i \<Longrightarrow>
   write_of st i w = write_of st' i w"
  by (simp add: write_of_def setPowerLimit_def gateway_defs Let_def split: prod.splits)

lemma write_of_enabled:
  assumes "handle_ret (lib st) i = SUCCESS"
    and "mode_q (dev (lib st) i) = (FEATURE_ENABLED, SUCCESS)"
    and "constraints_q (dev (lib st) i) = ((mn, mx), SUCCESS)"
  shows "write_of st i w =
           [(i, if w * 1000 < mn then mn else if mx < w * 1000 then mx else w * 1000)]"
  using assms
  by (simp add: write_of_def setPowerLimit_def gateway_defs Let_def split: prod.splits)

lemma setPowerLimit_success_is_read:
  "snd (fst (setPowerLimit i w st)) = None \<Longrightarrow>
   fst (setPowerLimit i w st) = getGPUInfo (lib (snd (setPowerLimit i w st))) i"
  by (auto simp add: setPowerLimit_def gateway_defs Let_def split: prod.splits if_splits)

lemma div_1000_mono: "(a :: u32) \<le> b \<Longrightarrow> a div 1000 \<le> b div 1000"
  by (simp add: word_le_nat_alt unat_div div_le_mono)

lemma getGPUInfo_ordered:
  assumes "getGPUInfo nv i = (info, None)" and "Supported info"
    and "limit_within_constraints nv i"
  shows "MinLimit info \<le> PowerLimit info \<and> PowerLimit info \<le> MaxLimit info"
  using assms
  by (auto simp add: getGPUInfo_def gateway_defs Let_def limit_within_constraints_def
      div_1000_mono split: prod.splits if_splits)

lemma unat_milliwatts: "unat ((w :: u32) * 1000) = (unat w * 1000) mod 2 ^ 32"
  by (simp add: unat_word_ariths)

lemma clamp_word_nat:
  "unat (if (x :: u32) < mn then mn else if mx < x then mx else x) =
   spec_clamp (unat mn) (unat mx) (unat x)"
  by (simp add: spec_clamp_def word_less_nat_alt)

lemma setPowerLimit_clamps_without_overflow:
  assumes "handle_ret (lib st) i = SUCCESS"
    and "mode_q (dev (lib st) i) = (FEATURE_ENABLED, SUCCESS)"
    and "constraints_q (dev (lib st) i) = ((minMW, maxMW), SUCCESS)"
    and "unat w * 1000 < 2 ^ 32"
  shows "\<exists>v. write_of st i w = [(i, v)] \<and>
             unat v = spec_clamp (unat minMW) (unat maxMW) (unat w * 1000)"
proof -
  have "unat (w * 1000) = unat w * 1000"
    using assms(4) by (simp add: unat_milliwatts)
  then show ?thesis
    by (simp add: write_of_enabled [OF assms(1-3)] clamp_word_nat)
qed

lemma setPowerLimit_write_in_range:
  assumes "handle_ret (lib st) i = SUCCESS"
    and "mode_q (dev (lib st) i) = (FEATURE_ENABLED, SUCCESS)"
    and "constraints_q (dev (lib st) i) = ((minMW, maxMW), SUCCESS)"
    and "minMW \<le> maxMW"
  shows "\<exists>v. write_of st i w = [(i, v)] \<and> minMW \<le> v \<and> v \<le> maxMW"
  using assms(4) by (auto simp add: write_of_enabled [OF assms(1-3)])

lemma setPowerLimit_not_reached:
  assumes "\<not> reaches_write st i"
  shows "snd (setPowerLimit i w st) = st"
  using assms
  by (auto simp add: reaches_write_def setPowerLimit_def gateway_defs split: prod.splits)

lemma setPowerLimit_reached:
  assumes "handle_ret (lib st) i = SUCCESS"
    and "mode_q (dev (lib st) i) = (FEATURE_ENABLED, SUCCESS)"
    and "constraints_q (dev (lib st) i) = ((mn, mx), SUCCESS)"
  shows "dev (lib (snd (setPowerLimit i w st))) =
           (if set_ret (dev (lib st) i) (clampMW mn mx w) = SUCCESS
            then (dev (lib st))
                   (i := (dev (lib st) i)\<lparr>limit_q :=
                      (stored (dev (lib st) i) (fst (limit_q (dev (lib st) i))) (clampMW mn mx w),
                       snd (limit_q (dev (lib st) i)))\<rparr>)
            else dev (lib st))"
    and "fst (setPowerLimit i w st) =
           (if set_ret (dev (lib st) i) (clampMW mn mx w) = SUCCESS
            then getGPUInfo (lib (snd (setPowerLimit i w st))) i
            else (GPUInfo_zero, Some (SetFailed (set_ret (dev (lib st) i) (clampMW mn mx w)))))"
    and "write_of st i w = [(i, clampMW mn mx w)]"
  using assms
  by (simp_all add: write_of_def setPowerLimit_def gateway_defs clampMW_def Let_def)

lemma getGPUInfo_unreadable_limits:
  assumes "handle_ret nv i = SUCCESS" and "mode_q (dev nv i) = (FEATURE_ENABLED, SUCCESS)"
    and "snd (limit_q (dev nv i)) \<noteq> SUCCESS \<or> snd (constraints_q (dev nv i)) \<noteq> SUCCESS"
  shows "\<exists>info. getGPUInfo nv i = (info, Some (read_failure (dev nv i))) \<and>
           Index info = i \<and> Supported info"
  using assms
  by (auto simp add: getGPUInfo_def gateway_defs Let_def read_failure_def split: prod.splits)

subsection \<open>The refresh loop\<close>

lemma initNVML_loop_lib: "lib (initNVML_loop i n st) = lib st"
proof (induction "n - i" arbitrary: i st)
  case 0
  then show ?case by (simp add: initNVML_loop.simps [of i n st])
next
  case (Suc k)
  then have "i < n" and "k = n - (i + 1)" by simp_all
  with Suc.hyps(1) show ?case
    by (simp add: initNVML_loop.simps [of i n st] split: prod.splits option.splits)
qed

lemma initNVML_loop_logged:
  "logged (initNVML_loop i n st) = logged st @ List.map_filter (refresh_warning (lib st)) [i..<n]"
proof (induction "n - i" arbitrary: i st)
  case 0
  then show ?case by (simp add: initNVML_loop.simps [of i n st])
next
  case (Suc k)
  then have "i < n" and k: "k = n - (i + 1)" by simp_all
  then have up: "[i..<n] = i # [i + 1..<n]" by (simp add: upt_conv_Cons)
  show ?case
    using \<open>i < n\<close> Suc.hyps(1) [OF k]
    by (simp add: initNVML_loop.simps [of i n st] up refresh_warning_def
        split: prod.splits option.splits)
qed

lemma initNVML_loop_length: "length (gpuCache (initNVML_loop i n st)) = length (gpuCache st)"
proof (induction "n - i" arbitrary: i st)
  case 0
  then show ?case by (simp add: initNVML_loop.simps [of i n st])
next
  case (Suc k)
  then have "i < n" and "k = n - (i + 1)" by simp_all
  with Suc.hyps(1) show ?case
    by (simp add: initNVML_loop.simps [of i n st] split: prod.splits option.splits)
qed

lemma initNVML_loop_nth:
  "j < length (gpuCache st) \<Longrightarrow>
   gpuCache (initNVML_loop i n st) ! j =
     (if i \<le> j \<and> j < n
      then (case getGPUInfo (lib st) (int j) of
              (info, None) \<Rightarrow> info | (info, Some err) \<Rightarrow> gpuCache st ! j)
      else gpuCache st ! j)"
proof (induction "n - i" arbitrary: i st)
  case 0
  then show ?case by (auto simp add: initNVML_loop.simps [of i n st])
next
  case (Suc k)
  then have "i < n" and k: "k = n - (i + 1)" by simp_all
  obtain info e where g: "getGPUInfo (lib st) (int i) = (info, e)"
    by (cases "getGPUInfo (lib st) (int i)")
  show ?case
  proof (cases e)
    case None
    let ?st = "st\<lparr>gpuCache := (gpuCache st)[i := info]\<rparr>"
    have run: "initNVML_loop i n st = initNVML_loop (i + 1) n ?st"
      using \<open>i < n\<close> g None by (simp add: initNVML_loop.simps [of i n st])
    have "j < length (gpuCache ?st)" using Suc.prems by simp
    from Suc.hyps(1) [OF k this] show ?thesis
      unfolding run using \<open>i < n\<close> g None Suc.prems
      by (cases "j = i") (auto simp add: nth_list_update)
  next
    case (Some err)
    let ?st = "st\<lparr>logged := logged st @ [LogGetInfoFailed (int i) err]\<rparr>"
    have run: "initNVML_loop i n st = initNVML_loop (i + 1) n ?st"
      using \<open>i < n\<close> g Some by (simp add: initNVML_loop.simps [of i n st])
    have "j < length (gpuCache ?st)" using Suc.prems by simp
    from Suc.hyps(1) [OF k this] show ?thesis
      unfolding run using \<open>i < n\<close> g Some Suc.prems
      by (cases "j = i") auto
  qed
qed

lemma initNVML_success:
  assumes "init_ret (lib st) = SUCCESS" and "count_q (lib st) = (n, SUCCESS)"
  shows "fst (initNVML st) = None"
    and "lib (snd (initNVML st)) = lib st"
    and "gpuCache (snd (initNVML st)) = map (refreshed_entry (lib st)) [0..<n]"
    and "logged (snd (initNVML st)) = logged st @ List.map_filter (refresh_warning (lib st)) [0..<n]"
proof -
  let ?st0 = "st\<lparr>gpuCache := replicate n GPUInfo_zero\<rparr>"
  have run: "initNVML st = (None, initNVML_loop 0 n ?st0)"
    using assms by (simp add: initNVML_def gateway_defs)
  show "fst (initNVML st) = None" by (simp add: run)
  show "lib (snd (initNVML st)) = lib st" by (simp add: run initNVML_loop_lib)
  show "logged (snd (initNVML st)) = logged st @ List.map_filter (refresh_warning (lib st)) [0..<n]"
    by (simp add: run initNVML_loop_logged)
  show "gpuCache (snd (initNVML st)) = map (refreshed_entry (lib st)) [0..<n]"
  proof (rule nth_equalityI)
    show "length (gpuCache (snd (initNVML st))) = length (map (refreshed_entry (lib st)) [0..<n])"
      by (simp add: run initNVML_loop_length)
  next
    fix j assume "j < length (gpuCache (snd (initNVML st)))"
    then have j: "j < n" by (simp add: run initNVML_loop_length)
    then show "gpuCache (snd (initNVML st)) ! j = map (refreshed_entry (lib st)) [0..<n] ! j"
      by (simp add: run initNVML_loop_nth refreshed_entry_def split: prod.splits option.splits)
  qed
qed

lemma initNVML_failure:
  assumes "init_ret (lib st) \<noteq> SUCCESS \<or> snd (count_q (lib st)) \<noteq> SUCCESS"
  shows "fst (initNVML st) \<noteq> None \<and> snd (initNVML st) = st"
  using assms by (auto simp add: initNVML_def gateway_defs Let_def split: prod.splits)

subsection \<open>The loops of the handler\<close>

lemma dispatcher_lines_append [simp]:
  "dispatcher_lines (xs @ ys) = dispatcher_lines xs @ dispatcher_lines ys"
  by (simp add: dispatcher_lines_def)

lemma setPowerLimit_dispatcher_lines:
  "dispatcher_lines (logged (snd (setPowerLimit i w st))) = dispatcher_lines (logged st)"
  by (simp add: setPowerLimit_def gateway_defs Let_def dispatcher_lines_def split: prod.splits)

lemma failure_line_cong:
  "handle_ret (lib st) i = handle_ret (lib st') i \<Longrightarrow> dev (lib st) i = dev (lib st') i \<Longrightarrow>
   failure_line st i w = failure_line st' i w"
  by (simp add: failure_line_def setPowerLimit_cong [of st i st'])

lemma all_loop_run:
  assumes "handle_ret (lib st) = handle_ret (lib st0)"
    and "\<forall>j. int i \<le> j \<longrightarrow> dev (lib st) j = dev (lib st0) j"
  shows "fst (all_loop i n w acc st) =
           acc @ map (\<lambda>j. fst (fst (setPowerLimit (int j) w st0)))
                   (filter (\<lambda>j. setter_ok st0 (int j) w) [i..<n]) \<and>
         writes (lib (snd (all_loop i n w acc st))) =
           writes (lib st) @ concat (map (\<lambda>j. write_of st0 (int j) w) [i..<n]) \<and>
         dispatcher_lines (logged (snd (all_loop i n w acc st))) =
           dispatcher_lines (logged st) @ concat (map (\<lambda>j. failure_line st0 (int j) w) [i..<n])"
  using assms
proof (induction "n - i" arbitrary: i acc st)
  case 0
  then show ?case by (simp add: all_loop.simps [of i n w acc st])
next
  case (Suc k)
  then have lt: "i < n" and k: "k = n - (i + 1)" by simp_all
  then have up: "[i..<n] = i # [i + 1..<n]" by (simp add: upt_conv_Cons)
  obtain info e st' where r: "setPowerLimit (int i) w st = ((info, e), st')"
    by (metis surj_pair)
  have same: "handle_ret (lib st) (int i) = handle_ret (lib st0) (int i)"
       "dev (lib st) (int i) = dev (lib st0) (int i)"
    using Suc.prems by simp_all
  have res0: "fst (setPowerLimit (int i) w st0) = (info, e)"
    using setPowerLimit_cong [OF same, of w] r by simp
  have wr: "writes (lib st') = writes (lib st) @ write_of st0 (int i) w"
    using setPowerLimit_writes_append [of "int i" w st] r write_of_cong [OF same, of w] by simp
  have fl: "failure_line st0 (int i) w = (case e of None \<Rightarrow> [] | Some err \<Rightarrow> [LogSetFailed (int i) err])"
    by (simp add: failure_line_def res0)
  have dl: "dispatcher_lines (logged st') = dispatcher_lines (logged st)"
    using setPowerLimit_dispatcher_lines [of "int i" w st] r by simp
  have h: "handle_ret (lib st') = handle_ret (lib st0)"
    using setPowerLimit_frame(1) [of "int i" w st] r Suc.prems by simp
  have d: "\<forall>j. int (i + 1) \<le> j \<longrightarrow> dev (lib st') j = dev (lib st0) j"
    using setPowerLimit_other [of _ "int i" w st] r Suc.prems by simp
  show ?case
  proof (cases e)
    case None
    have run: "all_loop i n w acc st = all_loop (i + 1) n w (acc @ [info]) st'"
      using lt r None by (simp add: all_loop.simps [of i n w acc st])
    from Suc.hyps(1) [OF k h d, of "acc @ [info]"] show ?thesis
      unfolding run using None res0 wr fl dl
      by (simp add: up setter_ok_def)
  next
    case (Some err)
    let ?st = "st'\<lparr>logged := logged st' @ [LogSetFailed (int i) err]\<rparr>"
    have run: "all_loop i n w acc st = all_loop (i + 1) n w acc ?st"
      using lt r Some by (simp add: all_loop.simps [of i n w acc st])
    have h': "handle_ret (lib ?st) = handle_ret (lib st0)" using h by simp
    have d': "\<forall>j. int (i + 1) \<le> j \<longrightarrow> dev (lib ?st) j = dev (lib st0) j" using d by simp
    from Suc.hyps(1) [OF k h' d', of acc] show ?thesis
      unfolding run using Some res0 wr fl dl
      by (simp add: up setter_ok_def dispatcher_lines_def)
  qed
qed

lemma manual_loop_run:
  assumes "distinct (map fst ml)"
    and "handle_ret (lib st) = handle_ret (lib st0)"
    and "\<forall>j \<in> fst ` set ml. dev (lib st) j = dev (lib st0) j"
  shows "fst (manual_loop ml n acc st) =
           acc @ map (\<lambda>p. fst (fst (setPowerLimit (fst p) (snd p) st0)))
                   (filter (manual_ok st0 n) ml) \<and>
         writes (lib (snd (manual_loop ml n acc st))) =
           writes (lib st) @ concat (map (manual_write st0 n) ml) \<and>
         dispatcher_lines (logged (snd (manual_loop ml n acc st))) =
           dispatcher_lines (logged st) @ concat (map (manual_line st0 n) ml)"
  using assms
proof (induction ml arbitrary: acc st)
  case Nil
  then show ?case by simp
next
  case (Cons p rest)
  obtain gpuIndex powerLimit where p: "p = (gpuIndex, powerLimit)" by (cases p)
  have dist: "distinct (map fst rest)" and notin: "gpuIndex \<notin> fst ` set rest"
    using Cons.prems(1) p by simp_all
  show ?case
  proof (cases "gpuIndex \<ge> 0 \<and> gpuIndex < int n")
    case False
    let ?st = "st\<lparr>logged := logged st @ [LogNoSuchGPU gpuIndex]\<rparr>"
    have run: "manual_loop (p # rest) n acc st = manual_loop rest n acc ?st"
      using False p by auto
    have h': "handle_ret (lib ?st) = handle_ret (lib st0)" using Cons.prems(2) by simp
    have d': "\<forall>j \<in> fst ` set rest. dev (lib ?st) j = dev (lib st0) j"
      using Cons.prems(3) by simp
    from Cons.IH [OF dist h' d', of acc] show ?thesis
      unfolding run using False p
      by (auto simp add: manual_ok_def manual_write_def manual_line_def dispatcher_lines_def)
  next
    case True
    obtain info e st' where r: "setPowerLimit gpuIndex powerLimit st = ((info, e), st')"
      by (metis surj_pair)
    have same: "handle_ret (lib st) gpuIndex = handle_ret (lib st0) gpuIndex"
         "dev (lib st) gpuIndex = dev (lib st0) gpuIndex"
      using Cons.prems p by simp_all
    have res0: "fst (setPowerLimit gpuIndex powerLimit st0) = (info, e)"
      using setPowerLimit_cong [OF same, of powerLimit] r by simp
    have wr: "writes (lib st') = writes (lib st) @ write_of st0 gpuIndex powerLimit"
      using setPowerLimit_writes_append [of gpuIndex powerLimit st] r
        write_of_cong [OF same, of powerLimit] by simp
    have fl: "failure_line st0 gpuIndex powerLimit =
                (case e of None \<Rightarrow> [] | Some err \<Rightarrow> [LogSetFailed gpuIndex err])"
      by (simp add: failure_line_def res0)
    have dl: "dispatcher_lines (logged st') = dispatcher_lines (logged st)"
      using setPowerLimit_dispatcher_lines [of gpuIndex powerLimit st] r by simp
    have h: "handle_ret (lib st') = handle_ret (lib st0)"
      using setPowerLimit_frame(1) [of gpuIndex powerLimit st] r Cons.prems(2) by simp
    have d: "\<forall>j \<in> fst ` set rest. dev (lib st') j = dev (lib st0) j"
    proof
      fix j assume j: "j \<in> fst ` set rest"
      then have "j \<noteq> gpuIndex" using notin by auto
      then have "dev (lib st') j = dev (lib st) j"
        using setPowerLimit_other [of j gpuIndex powerLimit st] r by simp
      then show "dev (lib st') j = dev (lib st0) j" using Cons.prems(3) j by simp
    qed
    show ?thesis
    proof (cases e)
      case None
      have run: "manual_loop (p # rest) n acc st = manual_loop rest n (acc @ [info]) st'"
        using True p r None by simp
      from Cons.IH [OF dist h d, of "acc @ [info]"] show ?thesis
        unfolding run using True p None res0 wr fl dl
        by (simp add: manual_ok_def manual_write_def manual_line_def setter_ok_def)
    next
      case (Some err)
      let ?st = "st'\<lparr>logged := logged st' @ [LogSetFailed gpuIndex err]\<rparr>"
      have run: "manual_loop (p # rest) n acc st = manual_loop rest n acc ?st"
        using True p r Some by simp
      have h': "handle_ret (lib ?st) = handle_ret (lib st0)" using h by simp
      have d': "\<forall>j \<in> fst ` set rest. dev (lib ?st) j = dev (lib st0) j" using d by simp
      from Cons.IH [OF dist h' d', of acc] show ?thesis
        unfolding run using True p Some res0 wr fl dl
        by (simp add: manual_ok_def manual_write_def manual_line_def setter_ok_def
            dispatcher_lines_def)
    qed
  qed
qed

lemma setter_ok_Index: "setter_ok st i w \<Longrightarrow> Index (fst (fst (setPowerLimit i w st))) = i"
  using setPowerLimit_success_is_read [of i w st] getGPUInfo_Index [of "lib (snd (setPowerLimit i w st))" i]
  by (simp add: setter_ok_def)

lemma write_of_index: "p \<in> set (write_of st i w) \<Longrightarrow> fst p = i"
  by (auto simp add: write_of_def setPowerLimit_def gateway_defs Let_def
      split: prod.splits if_splits)

lemma length_filter_neq_upt: "k < n \<Longrightarrow> length (filter (\<lambda>j. j \<noteq> k) [0..<n]) = n - 1"
proof (induction n)
  case 0
  then show ?case by simp
next
  case (Suc m)
  show ?case
  proof (cases "k = m")
    case True
    have "filter (\<lambda>j. j \<noteq> m) [0..<m] = [0..<m]" by (rule filter_True) simp
    with True show ?thesis by simp
  next
    case False
    with Suc.prems have "k < m" by simp
    with Suc.IH False show ?thesis by simp
  qed
qed

lemma dispatcher_lines_subset: "set (dispatcher_lines es) \<subseteq> set es"
  by (simp add: dispatcher_lines_def)

lemma locked_second_calls:
  "setter_ok locked_second 0 w" "\<not> setter_ok locked_second 1 w" "setter_ok locked_second 2 w"
  by (simp_all add: setter_ok_def setPowerLimit_def getGPUInfo_def gateway_defs demo_defs Let_def)

section \<open>The claims\<close>

text \<open>
  C1. The claim: for every requested watts \<open>w\<close> and bounds \<open>[minMW, maxMW]\<close> the value
  written is \<open>minMW\<close> if \<open>w * 1000 < minMW\<close>, \<open>maxMW\<close> if \<open>w * 1000 > maxMW\<close>, and
  \<open>w * 1000\<close> otherwise. The code breaks it where the product overflows: for a request
  of 4294968 W against bounds of 100 W and 300 W the 32-bit product is 704, so the setter
  writes the minimum, logs that the desired limit was below the minimum and reports a
  limit of 100 W, while the clamp of the specification gives the maximum. (Where
  \<open>w * 1000 < 2 ^ 32\<close> the clamp is exact, and the written value always lies within
  the bounds: \<open>setPowerLimit_clamps_without_overflow\<close>, \<open>setPowerLimit_write_in_range\<close>.)
\<close>

theorem setPowerLimit_overflow_applies_minimum:
  "write_of one_gpu 0 4294968 = [(0, 100000)] \<and>
   logged (snd (setPowerLimit 0 4294968 one_gpu)) = [LogBelowMinimum 0 4294968 100 100] \<and>
   snd (fst (setPowerLimit 0 4294968 one_gpu)) = None \<and>
   PowerLimit (fst (fst (setPowerLimit 0 4294968 one_gpu))) = 100 \<and>
   spec_clamp 100000 300000 (4294968 * 1000) = 300000"
  by (simp add: write_of_def setPowerLimit_def getGPUInfo_def GPUInfo_zero_def gateway_defs
      demo_defs spec_clamp_def)

text \<open>
  C2 as stated fails. With two devices of which device 1 is supported but its current
  limit cannot be read, the refresh succeeds and \<open>getGPUInfo\<close> hands back the record
  built so far (index 1, the name, supported) with the error; the cache entry of
  device 1 is nevertheless the zero value, not that record.
\<close>

theorem refresh_keeps_partial_record_counterexample:
  "handle_ret (lib unreadable_second) 1 = SUCCESS \<and>
   mode_q (dev (lib unreadable_second) 1) = (FEATURE_ENABLED, SUCCESS) \<and>
   snd (limit_q (dev (lib unreadable_second) 1)) \<noteq> SUCCESS \<and>
   fst (initNVML unreadable_second) = None \<and>
   getGPUInfo (lib unreadable_second) 1 =
     (GPUInfo_zero\<lparr>Index := 1, Name := ''GPU'', Supported := True\<rparr>,
      Some (LimitFailed (ERROR 999))) \<and>
   gpuCache (snd (initNVML unreadable_second)) ! 1 = GPUInfo_zero \<and>
   gpuCache (snd (initNVML unreadable_second)) ! 1 \<noteq> fst (getGPUInfo (lib unreadable_second) 1)"
proof -
  have i: "init_ret (lib unreadable_second) = SUCCESS"
    and c: "count_q (lib unreadable_second) = (2, SUCCESS)"
    by (simp_all add: demo_defs)
  have g: "getGPUInfo (lib unreadable_second) 1 =
     (GPUInfo_zero\<lparr>Index := 1, Name := ''GPU'', Supported := True\<rparr>,
      Some (LimitFailed (ERROR 999)))"
    by (simp add: getGPUInfo_def gateway_defs demo_defs)
  have "gpuCache (snd (initNVML unreadable_second)) ! 1 = refreshed_entry (lib unreadable_second) 1"
    by (simp add: initNVML_success(3) [OF i c])
  then have z: "gpuCache (snd (initNVML unreadable_second)) ! 1 = GPUInfo_zero"
    using g by (simp add: refreshed_entry_def)
  have "GPUInfo_zero \<noteq> GPUInfo_zero\<lparr>Index := 1, Name := ''GPU'', Supported := True\<rparr>"
    by (simp add: GPUInfo_zero_def)
  with z g initNVML_success(1) [OF i c] show ?thesis by (simp add: demo_defs)
qed

text \<open>
  C2, amended. During a refresh, for every supported device whose current-limit or
  constraints read fails, the refresh still succeeds and keeps one slot per device; it
  logs a warning naming the device and the error, and skips only that device: its slot
  holds the zero value of the record (index 0, empty name, not supported), although
  the record built so far carried its index and the supported flag, and every device
  whose record came without an error has that record in its slot.
\<close>

theorem refresh_zeroes_failed_device:
  assumes "init_ret (lib st) = SUCCESS" and "count_q (lib st) = (n, SUCCESS)" and "i < n"
    and "handle_ret (lib st) (int i) = SUCCESS"
    and "mode_q (dev (lib st) (int i)) = (FEATURE_ENABLED, SUCCESS)"
    and "snd (limit_q (dev (lib st) (int i))) \<noteq> SUCCESS \<or>
         snd (constraints_q (dev (lib st) (int i))) \<noteq> SUCCESS"
  shows "fst (initNVML st) = None \<and>
         length (gpuCache (snd (initNVML st))) = n \<and>
         gpuCache (snd (initNVML st)) ! i = GPUInfo_zero \<and>
         snd (getGPUInfo (lib st) (int i)) = Some (read_failure (dev (lib st) (int i))) \<and>
         Index (fst (getGPUInfo (lib st) (int i))) = int i \<and>
         Supported (fst (getGPUInfo (lib st) (int i))) \<and>
         LogGetInfoFailed (int i) (read_failure (dev (lib st) (int i)))
           \<in> set (logged (snd (initNVML st))) \<and>
         (\<forall>j<n. snd (getGPUInfo (lib st) (int j)) = None \<longrightarrow>
                gpuCache (snd (initNVML st)) ! j = fst (getGPUInfo (lib st) (int j)))"
proof -
  note ok = initNVML_success [OF assms(1,2)]
  from getGPUInfo_unreadable_limits [OF assms(4-6)]
  obtain info where g: "getGPUInfo (lib st) (int i) = (info, Some (read_failure (dev (lib st) (int i))))"
    and e: "Index info = int i" "Supported info"
    by blast
  let ?err = "read_failure (dev (lib st) (int i))"
  have len: "length (gpuCache (snd (initNVML st))) = n" by (simp add: ok(3))
  have nth: "gpuCache (snd (initNVML st)) ! j = refreshed_entry (lib st) j" if "j < n" for j
    using that by (simp add: ok(3))
  have zero: "gpuCache (snd (initNVML st)) ! i = GPUInfo_zero"
    using nth [OF assms(3)] g by (simp add: refreshed_entry_def)
  have "refresh_warning (lib st) i = Some (LogGetInfoFailed (int i) ?err)"
    using g by (simp add: refresh_warning_def)
  then have "LogGetInfoFailed (int i) ?err \<in> set (List.map_filter (refresh_warning (lib st)) [0..<n])"
    using assms(3) by (force simp add: List.map_filter_def)
  then have warn: "LogGetInfoFailed (int i) ?err \<in> set (logged (snd (initNVML st)))"
    by (simp add: ok(4))
  have others: "\<forall>j<n. snd (getGPUInfo (lib st) (int j)) = None \<longrightarrow>
                  gpuCache (snd (initNVML st)) ! j = fst (getGPUInfo (lib st) (int j))"
    by (auto simp add: nth refreshed_entry_def split: prod.splits option.splits)
  from ok(1) len zero g e warn others show ?thesis by auto
qed

text \<open>The amended C2 on the two devices above.\<close>

theorem refresh_zeroes_failed_device_witness:
  "init_ret (lib unreadable_second) = SUCCESS \<and>
   count_q (lib unreadable_second) = (2, SUCCESS) \<and>
   handle_ret (lib unreadable_second) 1 = SUCCESS \<and>
   mode_q (dev (lib unreadable_second) 1) = (FEATURE_ENABLED, SUCCESS) \<and>
   snd (limit_q (dev (lib unreadable_second) 1)) \<noteq> SUCCESS \<and>
   fst (initNVML unreadable_second) = None \<and>
   length (gpuCache (snd (initNVML unreadable_second))) = 2 \<and>
   gpuCache (snd (initNVML unreadable_second)) ! 1 = GPUInfo_zero \<and>
   LogGetInfoFailed 1 (LimitFailed (ERROR 999)) \<in> set (logged (snd (initNVML unreadable_second)))"
proof -
  have i: "init_ret (lib unreadable_second) = SUCCESS"
    and c: "count_q (lib unreadable_second) = (2, SUCCESS)"
    and h: "handle_ret (lib unreadable_second) (int 1) = SUCCESS"
    and m: "mode_q (dev (lib unreadable_second) (int 1)) = (FEATURE_ENABLED, SUCCESS)"
    and l: "snd (limit_q (dev (lib unreadable_second) (int 1))) \<noteq> SUCCESS \<or>
            snd (constraints_q (dev (lib unreadable_second) (int 1))) \<noteq> SUCCESS"
    by (simp_all add: demo_defs)
  have lt: "(1 :: nat) < 2" by simp
  have cq: "snd (constraints_q (dev (lib unreadable_second) 1)) = SUCCESS"
    and lq: "snd (limit_q (dev (lib unreadable_second) 1)) = ERROR 999"
    by (simp_all add: demo_defs)
  from refresh_zeroes_failed_device [OF i c lt h m l] i c h m cq lq show ?thesis
    by (simp add: read_failure_def)
qed

text \<open>
  C3. For every device index whose handle is found and whose power-management query
  succeeds and reports anything but enabled, \<open>setPowerLimit\<close> returns the error
  "power management not supported" with the zero record for every requested watts; the
  state it returns is the state it was given, so no write was issued and nothing of
  the device, the cache or the log changed.
\<close>

theorem unsupported_device_is_refused:
  assumes "handle_ret (lib st) i = SUCCESS"
    and "mode_q (dev (lib st) i) = (m, SUCCESS)" and "m \<noteq> FEATURE_ENABLED"
  shows "setPowerLimit i w st = ((GPUInfo_zero, Some NotSupported), st) \<and>
         write_of st i w = []"
  using assms by (simp add: write_of_def setPowerLimit_def gateway_defs)

text \<open>C3 on a device that reports power management disabled.\<close>

theorem unsupported_device_is_refused_witness:
  "handle_ret (lib unsupported_gpu) 0 = SUCCESS \<and>
   mode_q (dev (lib unsupported_gpu) 0) = (FEATURE_DISABLED, SUCCESS) \<and>
   FEATURE_DISABLED \<noteq> FEATURE_ENABLED \<and>
   setPowerLimit 0 200 unsupported_gpu = ((GPUInfo_zero, Some NotSupported), unsupported_gpu) \<and>
   write_of unsupported_gpu 0 200 = []"
proof -
  have h: "handle_ret (lib unsupported_gpu) 0 = SUCCESS" by (simp add: demo_defs)
  have m: "mode_q (dev (lib unsupported_gpu) 0) = (FEATURE_DISABLED, SUCCESS)"
    by (simp add: demo_defs)
  have n: "FEATURE_DISABLED \<noteq> FEATURE_ENABLED" by simp
  from unsupported_device_is_refused [OF h m n, of 200] h m n show ?thesis by simp
qed

text \<open>
  C4. For every record that \<open>getGPUInfo\<close> returns without an error, or that
  \<open>setPowerLimit\<close> returns without an error (it is then the read of the state after
  the write), against a gateway that reports the current limit within the bounds it
  reports: if the record says supported, then
  \<open>MinLimit \<le> PowerLimit \<le> MaxLimit\<close>. The watt fields are the milliwatt values
  divided by 1000, which keeps the order.
\<close>

theorem limits_ordered_after_read_or_write:
  assumes "getGPUInfo nv i = (info, None) \<or>
           (fst (setPowerLimit i w st) = (info, None) \<and> nv = lib (snd (setPowerLimit i w st)))"
    and "limit_within_constraints nv i" and "Supported info"
  shows "MinLimit info \<le> PowerLimit info \<and> PowerLimit info \<le> MaxLimit info"
proof -
  from assms(1) have "getGPUInfo nv i = (info, None)"
  proof
    assume "getGPUInfo nv i = (info, None)"
    then show ?thesis .
  next
    assume w: "fst (setPowerLimit i w st) = (info, None) \<and> nv = lib (snd (setPowerLimit i w st))"
    then have "snd (fst (setPowerLimit i w st)) = None" by simp
    from setPowerLimit_success_is_read [OF this] w show ?thesis by simp
  qed
  then show ?thesis using assms(2,3) by (intro getGPUInfo_ordered)
qed

text \<open>C4 on a write of 4000 W, clamped to the maximum of 300 W.\<close>

theorem limits_ordered_after_read_or_write_witness:
  "fst (setPowerLimit 0 4000 one_gpu) =
     (\<lparr>Index = 0, Name = ''GPU'', PowerLimit = 300, MinLimit = 100, MaxLimit = 300,
       PowerUsage = 120, Supported = True\<rparr>, None) \<and>
   limit_within_constraints (lib (snd (setPowerLimit 0 4000 one_gpu))) 0 \<and>
   Supported (fst (fst (setPowerLimit 0 4000 one_gpu))) \<and>
   MinLimit (fst (fst (setPowerLimit 0 4000 one_gpu))) \<le>
     PowerLimit (fst (fst (setPowerLimit 0 4000 one_gpu))) \<and>
   PowerLimit (fst (fst (setPowerLimit 0 4000 one_gpu))) \<le>
     MaxLimit (fst (fst (setPowerLimit 0 4000 one_gpu)))"
proof -
  let ?info = "fst (fst (setPowerLimit 0 4000 one_gpu))"
  let ?nv = "lib (snd (setPowerLimit 0 4000 one_gpu))"
  have r: "fst (setPowerLimit 0 4000 one_gpu) =
     (\<lparr>Index = 0, Name = ''GPU'', PowerLimit = 300, MinLimit = 100, MaxLimit = 300,
       PowerUsage = 120, Supported = True\<rparr>, None)"
    by (simp add: setPowerLimit_def getGPUInfo_def GPUInfo_zero_def gateway_defs demo_defs)
  then have w: "getGPUInfo ?nv 0 = (?info, None) \<or>
                (fst (setPowerLimit 0 4000 one_gpu) = (?info, None) \<and> ?nv = ?nv)"
    by simp
  have b: "limit_within_constraints ?nv 0"
    by (simp add: limit_within_constraints_def setPowerLimit_def gateway_defs demo_defs)
  have s: "Supported ?info" using r by simp
  from limits_ordered_after_read_or_write [OF w b s] r b s show ?thesis by simp
qed

text \<open>
  C5. The refresh returns an error exactly when the initialisation of the library or
  the device-count query fails, and then the state, the cache included, is as before.
  When it succeeds the cache has one slot for every index below the count, filled as
  \<open>refreshed_entry\<close> says (the record, or the zero value for a device whose record
  came with an error: a failing device never aborts the refresh), the library state is
  untouched, and the new cache does not depend on the old one.
\<close>

theorem refresh_fails_only_on_init_or_count:
  "(fst (initNVML st) \<noteq> None \<longleftrightarrow>
      Init (lib st) \<noteq> SUCCESS \<or> snd (DeviceGetCount (lib st)) \<noteq> SUCCESS) \<and>
   (fst (initNVML st) \<noteq> None \<longrightarrow> snd (initNVML st) = st) \<and>
   (fst (initNVML st) = None \<longrightarrow>
      length (gpuCache (snd (initNVML st))) = fst (DeviceGetCount (lib st)) \<and>
      gpuCache (snd (initNVML st)) =
        map (refreshed_entry (lib st)) [0..<fst (DeviceGetCount (lib st))] \<and>
      lib (snd (initNVML st)) = lib st \<and>
      (\<forall>c. gpuCache (snd (initNVML (st\<lparr>gpuCache := c\<rparr>))) = gpuCache (snd (initNVML st))))"
proof (cases "init_ret (lib st) \<noteq> SUCCESS \<or> snd (count_q (lib st)) \<noteq> SUCCESS")
  case True
  from initNVML_failure [OF True] True show ?thesis by (auto simp add: gateway_defs)
next
  case False
  then have i: "init_ret (lib st) = SUCCESS"
    and c: "count_q (lib st) = (fst (count_q (lib st)), SUCCESS)"
    by (simp_all add: prod_eq_iff)
  have fresh: "gpuCache (snd (initNVML (st\<lparr>gpuCache := c'\<rparr>))) = gpuCache (snd (initNVML st))" for c'
    using initNVML_success(3) [of "st\<lparr>gpuCache := c'\<rparr>" "fst (count_q (lib st))"]
      initNVML_success(3) [OF i c] i c by simp
  from initNVML_success [OF i c] False fresh show ?thesis by (simp add: gateway_defs)
qed

text \<open>C5 on a refresh that succeeds and on one whose count query fails.\<close>

theorem refresh_fails_only_on_init_or_count_witness:
  "Init (lib unreadable_second) = SUCCESS \<and>
   DeviceGetCount (lib unreadable_second) = (2, SUCCESS) \<and>
   fst (initNVML unreadable_second) = None \<and>
   length (gpuCache (snd (initNVML unreadable_second))) = 2 \<and>
   gpuCache (snd (initNVML unreadable_second)) =
     map (refreshed_entry (lib unreadable_second)) [0..<2] \<and>
   snd (DeviceGetCount (lib (one_gpu\<lparr>lib := (lib one_gpu)\<lparr>count_q := (0, ERROR 1)\<rparr>\<rparr>))) \<noteq> SUCCESS \<and>
   fst (initNVML (one_gpu\<lparr>lib := (lib one_gpu)\<lparr>count_q := (0, ERROR 1)\<rparr>\<rparr>)) \<noteq> None \<and>
   snd (initNVML (one_gpu\<lparr>lib := (lib one_gpu)\<lparr>count_q := (0, ERROR 1)\<rparr>\<rparr>)) =
     one_gpu\<lparr>lib := (lib one_gpu)\<lparr>count_q := (0, ERROR 1)\<rparr>\<rparr>"
proof -
  have a: "Init (lib unreadable_second) = SUCCESS"
    and b: "DeviceGetCount (lib unreadable_second) = (2, SUCCESS)"
    by (simp_all add: gateway_defs demo_defs)
  have c: "snd (DeviceGetCount (lib (one_gpu\<lparr>lib := (lib one_gpu)\<lparr>count_q := (0, ERROR 1)\<rparr>\<rparr>))) \<noteq> SUCCESS"
    by (simp add: gateway_defs)
  from refresh_fails_only_on_init_or_count [of unreadable_second]
    refresh_fails_only_on_init_or_count [of "one_gpu\<lparr>lib := (lib one_gpu)\<lparr>count_q := (0, ERROR 1)\<rparr>\<rparr>"]
    a b c
  show ?thesis by simp
qed

text \<open>
  C6. For every request whose mode is neither "all" nor "manual" the mode switch takes
  the rejecting branch and leaves the state as it was: no call of the setter, hence no
  write and no log line. The handler as a whole leaves the state unchanged too, and
  answers 400 with the "Invalid mode" message whenever the device count could be read
  (the switch is reached only then).
\<close>

theorem unknown_mode_touches_nothing:
  assumes "Mode req \<noteq> ''all''" and "Mode req \<noteq> ''manual''"
  shows "dispatch req n st = (None, st) \<and>
         snd (setPowerLimitsHandler (Some req) st) = st \<and>
         (snd (DeviceGetCount (lib st)) = SUCCESS \<longrightarrow>
            fst (setPowerLimitsHandler (Some req) st) =
              Response 400 (ErrorText ''Invalid mode (must be 'all' or 'manual')''))"
  using assms
  by (simp add: dispatch_def setPowerLimitsHandler_def Let_def split: prod.splits)

text \<open>C6 on a request with mode "auto".\<close>

theorem unknown_mode_touches_nothing_witness:
  "''auto'' \<noteq> ''all'' \<and> ''auto'' \<noteq> ''manual'' \<and>
   snd (DeviceGetCount (lib locked_second)) = SUCCESS \<and>
   dispatch \<lparr>Mode = ''auto'', ReqPowerLimit = 200, ManualLimits = [(0, 150)]\<rparr> 3 locked_second =
     (None, locked_second) \<and>
   setPowerLimitsHandler (Some \<lparr>Mode = ''auto'', ReqPowerLimit = 200, ManualLimits = [(0, 150)]\<rparr>)
       locked_second =
     (Response 400 (ErrorText ''Invalid mode (must be 'all' or 'manual')''), locked_second)"
proof -
  have c: "snd (DeviceGetCount (lib locked_second)) = SUCCESS"
    by (simp add: gateway_defs demo_defs)
  from unknown_mode_touches_nothing
    [of "\<lparr>Mode = ''auto'', ReqPowerLimit = 200, ManualLimits = [(0, 150)]\<rparr>" 3 locked_second] c
  show ?thesis by (simp add: prod_eq_iff)
qed

text \<open>
  C7. In mode "all" with \<open>n\<close> devices the loop calls the setter for the indices
  \<open>0, ..., n - 1\<close> in this order with the request's power limit: the writes issued are
  those of the single calls, in increasing order of the index, the list returned holds
  the records of exactly the calls that succeeded, in the same order, and the loop logs
  one failure line for each call that failed and goes on. A call in the loop behaves as
  the same call on the initial state, because a call changes no other device. So when
  exactly the call for device \<open>k\<close> fails, the list has length \<open>n - 1\<close> and holds the
  records of all devices but \<open>k\<close>, and a failure line for \<open>k\<close> is in the log.
\<close>

theorem all_mode_visits_every_device:
  assumes "Mode req = ''all''"
  shows "\<exists>rs st'. dispatch req n st = (Some rs, st') \<and>
           rs = map (\<lambda>j. fst (fst (setPowerLimit (int j) (ReqPowerLimit req) st)))
                  (filter (\<lambda>j. setter_ok st (int j) (ReqPowerLimit req)) [0..<n]) \<and>
           writes (lib st') =
             writes (lib st) @ concat (map (\<lambda>j. write_of st (int j) (ReqPowerLimit req)) [0..<n]) \<and>
           dispatcher_lines (logged st') =
             dispatcher_lines (logged st) @
             concat (map (\<lambda>j. failure_line st (int j) (ReqPowerLimit req)) [0..<n]) \<and>
           (k < n \<and> (\<forall>j<n. setter_ok st (int j) (ReqPowerLimit req) \<longleftrightarrow> j \<noteq> k) \<longrightarrow>
              length rs = n - 1 \<and>
              rs = map (\<lambda>j. fst (fst (setPowerLimit (int j) (ReqPowerLimit req) st)))
                     (filter (\<lambda>j. j \<noteq> k) [0..<n]) \<and>
              map Index rs = map int (filter (\<lambda>j. j \<noteq> k) [0..<n]) \<and>
              (\<exists>err. LogSetFailed (int k) err \<in> set (logged st')))"
proof -
  let ?w = "ReqPowerLimit req"
  let ?ok = "\<lambda>j. setter_ok st (int j) ?w"
  let ?rs = "map (\<lambda>j. fst (fst (setPowerLimit (int j) ?w st))) (filter ?ok [0..<n])"
  obtain rs st' where run: "all_loop 0 n ?w [] st = (rs, st')" by (cases "all_loop 0 n ?w [] st")
  have d: "dispatch req n st = (Some rs, st')"
    using assms run by (simp add: dispatch_def)
  from all_loop_run [of st st 0 n ?w "[]"] run
  have rs: "rs = ?rs"
    and wr: "writes (lib st') = writes (lib st) @ concat (map (\<lambda>j. write_of st (int j) ?w) [0..<n])"
    and dl: "dispatcher_lines (logged st') =
               dispatcher_lines (logged st) @ concat (map (\<lambda>j. failure_line st (int j) ?w) [0..<n])"
    by simp_all
  have idx: "map Index rs = map int (filter ?ok [0..<n])"
    unfolding rs by (simp add: setter_ok_Index)
  have one: "length rs = n - 1 \<and>
             rs = map (\<lambda>j. fst (fst (setPowerLimit (int j) ?w st)))
                    (filter (\<lambda>j. j \<noteq> k) [0..<n]) \<and>
             map Index rs = map int (filter (\<lambda>j. j \<noteq> k) [0..<n]) \<and>
             (\<exists>err. LogSetFailed (int k) err \<in> set (logged st'))"
    if k: "k < n" and only: "\<forall>j<n. ?ok j \<longleftrightarrow> j \<noteq> k"
  proof -
    have f: "filter ?ok [0..<n] = filter (\<lambda>j. j \<noteq> k) [0..<n]"
      using only by (intro filter_cong) simp_all
    have len: "length rs = n - 1"
      unfolding rs using f length_filter_neq_upt [OF k] by simp
    from only k have "\<not> ?ok k" by simp
    then obtain err where e: "snd (fst (setPowerLimit (int k) ?w st)) = Some err"
      by (auto simp add: setter_ok_def)
    then have "LogSetFailed (int k) err \<in> set (failure_line st (int k) ?w)"
      by (simp add: failure_line_def)
    with k have "LogSetFailed (int k) err \<in> set (dispatcher_lines (logged st'))"
      unfolding dl by auto
    with dispatcher_lines_subset have "LogSetFailed (int k) err \<in> set (logged st')" by blast
    with len idx f rs show ?thesis by auto
  qed
  from d rs wr dl one show ?thesis by blast
qed

text \<open>C7 on three devices where the driver rejects the write to device 1.\<close>

theorem all_mode_visits_every_device_witness:
  "Mode \<lparr>Mode = ''all'', ReqPowerLimit = 200, ManualLimits = []\<rparr> = ''all'' \<and>
   setter_ok locked_second 0 200 \<and> \<not> setter_ok locked_second 1 200 \<and>
   setter_ok locked_second 2 200 \<and>
   (\<exists>rs st'. dispatch \<lparr>Mode = ''all'', ReqPowerLimit = 200, ManualLimits = []\<rparr> 3 locked_second =
                (Some rs, st') \<and>
      length rs = 2 \<and> map Index rs = [0, 2] \<and>
      writes (lib st') = [(0, 200000), (1, 200000), (2, 200000)] \<and>
      (\<exists>err. LogSetFailed 1 err \<in> set (logged st')))"
proof -
  let ?req = "\<lparr>Mode = ''all'', ReqPowerLimit = 200, ManualLimits = []\<rparr>"
  have m: "Mode ?req = ''all''" by simp
  note oks = locked_second_calls [of 200]
  have only: "\<forall>j<3. setter_ok locked_second (int j) (ReqPowerLimit ?req) \<longleftrightarrow> j \<noteq> 1"
    using oks by (auto simp add: less_Suc_eq eval_nat_numeral)
  have w: "write_of locked_second 0 200 = [(0, 200000)]"
    "write_of locked_second 1 200 = [(1, 200000)]"
    "write_of locked_second 2 200 = [(2, 200000)]"
    by (simp_all add: write_of_def setPowerLimit_def gateway_defs demo_defs Let_def)
  have ws: "writes (lib locked_second) = []" by (simp add: demo_defs)
  from all_mode_visits_every_device [OF m, of 3 locked_second 1] only oks w ws
  show ?thesis by (auto simp add: eval_nat_numeral)
qed

text \<open>
  C8. In mode "manual", with the entries of the map in any order: an entry whose index
  is outside \<open>[0, count)\<close> gets a warning in the log, no record in the results and no
  write (the setter is not called for it); for an entry whose index is in range the
  setter is called with its watts, and a record with its index is in the results
  exactly when that call succeeds. The results, the writes and the lines logged are
  those of the single calls in the order of the entries.
\<close>

theorem manual_mode_skips_and_collects:
  assumes "Mode req = ''manual''" and "distinct (map fst (ManualLimits req))"
  shows "\<exists>rs st'. dispatch req n st = (Some rs, st') \<and>
           rs = map (\<lambda>p. fst (fst (setPowerLimit (fst p) (snd p) st)))
                  (filter (manual_ok st n) (ManualLimits req)) \<and>
           writes (lib st') =
             writes (lib st) @ concat (map (manual_write st n) (ManualLimits req)) \<and>
           dispatcher_lines (logged st') =
             dispatcher_lines (logged st) @ concat (map (manual_line st n) (ManualLimits req)) \<and>
           (\<forall>p \<in> set (ManualLimits req).
              if 0 \<le> fst p \<and> fst p < int n
              then (fst p \<in> Index ` set rs \<longleftrightarrow> setter_ok st (fst p) (snd p))
              else fst p \<notin> Index ` set rs \<and>
                   LogNoSuchGPU (fst p) \<in> set (logged st') \<and>
                   fst p \<notin> fst ` set (drop (length (writes (lib st))) (writes (lib st'))))"
proof -
  let ?ml = "ManualLimits req"
  let ?rs = "map (\<lambda>p. fst (fst (setPowerLimit (fst p) (snd p) st))) (filter (manual_ok st n) ?ml)"
  obtain rs st' where run: "manual_loop ?ml n [] st = (rs, st')" by (cases "manual_loop ?ml n [] st")
  have d: "dispatch req n st = (Some rs, st')"
    using assms(1) run by (simp add: dispatch_def)
  from manual_loop_run [OF assms(2), of st st n "[]"] run
  have rs: "rs = ?rs"
    and wr: "writes (lib st') = writes (lib st) @ concat (map (manual_write st n) ?ml)"
    and dl: "dispatcher_lines (logged st') =
               dispatcher_lines (logged st) @ concat (map (manual_line st n) ?ml)"
    by simp_all
  have idx: "map Index rs = map fst (filter (manual_ok st n) ?ml)"
    unfolding rs by (simp add: setter_ok_Index manual_ok_def)
  then have idxset: "Index ` set rs = fst ` {p \<in> set ?ml. manual_ok st n p}"
    by (metis list.set_map set_filter)
  have new_writes: "q \<in> set (drop (length (writes (lib st))) (writes (lib st'))) \<Longrightarrow>
                    0 \<le> fst q \<and> fst q < int n" for q
    unfolding wr by (auto simp add: manual_write_def dest: write_of_index split: if_splits)
  have each: "if 0 \<le> fst p \<and> fst p < int n
              then (fst p \<in> Index ` set rs \<longleftrightarrow> setter_ok st (fst p) (snd p))
              else fst p \<notin> Index ` set rs \<and>
                   LogNoSuchGPU (fst p) \<in> set (logged st') \<and>
                   fst p \<notin> fst ` set (drop (length (writes (lib st))) (writes (lib st')))"
    if p: "p \<in> set ?ml" for p
  proof (cases "0 \<le> fst p \<and> fst p < int n")
    case True
    have "fst p \<in> Index ` set rs \<longleftrightarrow> manual_ok st n p"
    proof
      assume "fst p \<in> Index ` set rs"
      then obtain q where q: "q \<in> set ?ml" "manual_ok st n q" "fst q = fst p"
        unfolding idxset by auto
      with p assms(2) have "q = p" by (metis eq_key_imp_eq_value prod.collapse)
      with q show "manual_ok st n p" by simp
    next
      assume "manual_ok st n p"
      with p show "fst p \<in> Index ` set rs" unfolding idxset by auto
    qed
    with True show ?thesis by (simp add: manual_ok_def)
  next
    case False
    have a: "fst p \<notin> Index ` set rs"
      unfolding idxset using False by (auto simp add: manual_ok_def)
    have "LogNoSuchGPU (fst p) \<in> set (manual_line st n p)"
      using False by (auto simp add: manual_line_def)
    with p have "LogNoSuchGPU (fst p) \<in> set (dispatcher_lines (logged st'))"
      unfolding dl by auto
    with dispatcher_lines_subset have b: "LogNoSuchGPU (fst p) \<in> set (logged st')" by blast
    have c: "fst p \<notin> fst ` set (drop (length (writes (lib st))) (writes (lib st')))"
      using new_writes False by auto
    from False a b c show ?thesis by auto
  qed
  from d rs wr dl each show ?thesis by blast
qed

text \<open>
  C8 on three devices where the driver rejects the write to device 1, with entries
  for the indices 2, 7, -1, 1 and 0.
\<close>

theorem manual_mode_skips_and_collects_witness:
  "Mode \<lparr>Mode = ''manual'', ReqPowerLimit = 0,
         ManualLimits = [(2, 50), (7, 100), (- 1, 3), (1, 120), (0, 4294968)]\<rparr> = ''manual'' \<and>
   distinct (map fst [(2 :: int, 50 :: u32), (7, 100), (- 1, 3), (1, 120), (0, 4294968)]) \<and>
   (\<exists>rs st'. dispatch \<lparr>Mode = ''manual'', ReqPowerLimit = 0,
                  ManualLimits = [(2, 50), (7, 100), (- 1, 3), (1, 120), (0, 4294968)]\<rparr>
                3 locked_second = (Some rs, st') \<and>
      map Index rs = [2, 0] \<and>
      writes (lib st') = [(2, 100000), (1, 120000), (0, 100000)] \<and>
      dispatcher_lines (logged st') =
        [LogNoSuchGPU 7, LogNoSuchGPU (- 1), LogSetFailed 1 (SetFailed (ERROR 4))])"
proof -
  let ?ml = "[(2 :: int, 50 :: u32), (7, 100), (- 1, 3), (1, 120), (0, 4294968)]"
  let ?req = "\<lparr>Mode = ''manual'', ReqPowerLimit = 0, ManualLimits = ?ml\<rparr>"
  have m: "Mode ?req = ''manual''" by simp
  have d: "distinct (map fst (ManualLimits ?req))" by simp
  have r: "fst (setPowerLimit 2 50 locked_second) =
             (\<lparr>Index = 2, Name = ''GPU'', PowerLimit = 100, MinLimit = 100, MaxLimit = 300,
               PowerUsage = 120, Supported = True\<rparr>, None)"
    "fst (setPowerLimit 1 120 locked_second) = (GPUInfo_zero, Some (SetFailed (ERROR 4)))"
    "fst (setPowerLimit 0 4294968 locked_second) =
             (\<lparr>Index = 0, Name = ''GPU'', PowerLimit = 100, MinLimit = 100, MaxLimit = 300,
               PowerUsage = 120, Supported = True\<rparr>, None)"
    by (simp_all add: setPowerLimit_def getGPUInfo_def GPUInfo_zero_def gateway_defs demo_defs
        Let_def)
  have w: "write_of locked_second 2 50 = [(2, 100000)]"
    "write_of locked_second 1 120 = [(1, 120000)]"
    "write_of locked_second 0 4294968 = [(0, 100000)]"
    by (simp_all add: write_of_def setPowerLimit_def gateway_defs demo_defs Let_def)
  have e: "writes (lib locked_second) = []" "logged locked_second = []"
    by (simp_all add: demo_defs)
  from manual_mode_skips_and_collects [OF m d, of 3 locked_second]
  obtain rs st' where run: "dispatch ?req 3 locked_second = (Some rs, st')"
    and rs: "rs = map (\<lambda>p. fst (fst (setPowerLimit (fst p) (snd p) locked_second)))
                    (filter (manual_ok locked_second 3) ?ml)"
    and wr: "writes (lib st') =
               writes (lib locked_second) @ concat (map (manual_write locked_second 3) ?ml)"
    and dl: "dispatcher_lines (logged st') =
               dispatcher_lines (logged locked_second) @
               concat (map (manual_line locked_second 3) ?ml)"
    by auto
  have "map Index rs = [2, 0]"
    unfolding rs by (simp add: manual_ok_def setter_ok_def r)
  moreover have "writes (lib st') = [(2, 100000), (1, 120000), (0, 100000)]"
    unfolding wr by (simp add: manual_write_def w e)
  moreover have "dispatcher_lines (logged st') =
        [LogNoSuchGPU 7, LogNoSuchGPU (- 1), LogSetFailed 1 (SetFailed (ERROR 4))]"
    unfolding dl by (simp add: manual_line_def failure_line_def r e dispatcher_lines_def)
  ultimately show ?thesis using run by simp
qed

text \<open>
  C9. For every device index and requested watts, when the device echoes written
  limits exactly: a second call of \<open>setPowerLimit\<close> with the same arguments, right
  after the first, returns the same record and error as the first, leaves every device
  as the first call left it, and issues the same write (the same clamped value) if the
  first issued one.
\<close>

theorem setPowerLimit_twice:
  assumes "echoes (dev (lib st) i)"
  shows "fst (setPowerLimit i w (snd (setPowerLimit i w st))) = fst (setPowerLimit i w st) \<and>
         dev (lib (snd (setPowerLimit i w (snd (setPowerLimit i w st))))) =
           dev (lib (snd (setPowerLimit i w st))) \<and>
         write_of (snd (setPowerLimit i w st)) i w = write_of st i w"
proof (cases "reaches_write st i")
  case False
  then have "snd (setPowerLimit i w st) = st" by (rule setPowerLimit_not_reached)
  then show ?thesis by simp
next
  case True
  let ?st1 = "snd (setPowerLimit i w st)"
  let ?st2 = "snd (setPowerLimit i w ?st1)"
  let ?d = "dev (lib st) i"
  obtain mn mx where c: "constraints_q ?d = ((mn, mx), SUCCESS)"
    using True by (metis reaches_write_def prod.collapse)
  from True have h: "handle_ret (lib st) i = SUCCESS"
    and m: "mode_q ?d = (FEATURE_ENABLED, SUCCESS)"
    by (simp_all add: reaches_write_def)
  let ?v = "clampMW mn mx w"
  note first = setPowerLimit_reached [OF h m c, of w]
  have hr: "handle_ret (lib ?st1) = handle_ret (lib st)" by (rule setPowerLimit_frame(1))
  have echo: "stored ?d old ?v = ?v" for old using assms by (simp add: echoes_def)
  have d1: "dev (lib ?st1) i = ?d \<or> dev (lib ?st1) i = ?d\<lparr>limit_q := (?v, snd (limit_q ?d))\<rparr>"
    by (simp add: first(1) echo)
  then have h1: "handle_ret (lib ?st1) i = SUCCESS"
    and m1: "mode_q (dev (lib ?st1) i) = (FEATURE_ENABLED, SUCCESS)"
    and c1: "constraints_q (dev (lib ?st1) i) = ((mn, mx), SUCCESS)"
    and s1: "set_ret (dev (lib ?st1) i) = set_ret ?d"
    and e1: "stored (dev (lib ?st1) i) = stored ?d"
    using h m c hr by auto
  note second = setPowerLimit_reached [OF h1 m1 c1, of w]
  have w: "write_of ?st1 i w = write_of st i w" by (simp add: first(3) second(3))
  have devs: "dev (lib ?st2) = dev (lib ?st1)"
  proof (cases "set_ret ?d ?v = SUCCESS")
    case False
    then show ?thesis by (simp add: second(1) s1)
  next
    case True
    then have "dev (lib ?st1) i = ?d\<lparr>limit_q := (?v, snd (limit_q ?d))\<rparr>"
      by (simp add: first(1) echo)
    then have "(dev (lib ?st1) i)\<lparr>limit_q := (?v, snd (limit_q (dev (lib ?st1) i)))\<rparr> =
               dev (lib ?st1) i"
      by simp
    then show ?thesis using True by (simp add: second(1) s1 e1 echo)
  qed
  have "handle_ret (lib ?st2) = handle_ret (lib ?st1)" by (rule setPowerLimit_frame(1))
  with devs have "getGPUInfo (lib ?st2) i = getGPUInfo (lib ?st1) i"
    by (intro getGPUInfo_cong) simp_all
  then have "fst (setPowerLimit i w ?st1) = fst (setPowerLimit i w st)"
    by (simp add: first(2) second(2) s1)
  with devs w show ?thesis by simp
qed

text \<open>C9 on a request of 4000 W, clamped to 300 W both times.\<close>

theorem setPowerLimit_twice_witness:
  "echoes (dev (lib one_gpu) 0) \<and>
   fst (setPowerLimit 0 4000 one_gpu) =
     (\<lparr>Index = 0, Name = ''GPU'', PowerLimit = 300, MinLimit = 100, MaxLimit = 300,
       PowerUsage = 120, Supported = True\<rparr>, None) \<and>
   fst (setPowerLimit 0 4000 (snd (setPowerLimit 0 4000 one_gpu))) =
     fst (setPowerLimit 0 4000 one_gpu) \<and>
   dev (lib (snd (setPowerLimit 0 4000 (snd (setPowerLimit 0 4000 one_gpu))))) =
     dev (lib (snd (setPowerLimit 0 4000 one_gpu))) \<and>
   write_of (snd (setPowerLimit 0 4000 one_gpu)) 0 4000 = [(0, 300000)]"
proof -
  have e: "echoes (dev (lib one_gpu) 0)" by (simp add: echoes_def demo_defs)
  have r: "fst (setPowerLimit 0 4000 one_gpu) =
     (\<lparr>Index = 0, Name = ''GPU'', PowerLimit = 300, MinLimit = 100, MaxLimit = 300,
       PowerUsage = 120, Supported = True\<rparr>, None)"
    by (simp add: setPowerLimit_def getGPUInfo_def GPUInfo_zero_def gateway_defs demo_defs)
  have w: "write_of one_gpu 0 4000 = [(0, 300000)]"
    by (simp add: write_of_def setPowerLimit_def gateway_defs demo_defs)
  from setPowerLimit_twice [OF e, of 4000] e r w show ?thesis by simp
qed

text \<open>
  C10. The conversion to milliwatts is a 32-bit product: whenever the setter reaches the
  write, the value written is the clamp of \<open>(w * 1000) mod 2 ^ 32\<close>. So for a device
  whose minimum is above 704 mW there is a request \<open>w'\<close> with \<open>w' * 1000 \<ge> 2 ^ 32\<close>,
  above the maximum, for which the setter writes the minimum (4294968 W wraps to 704 mW).
\<close>

theorem wrapped_milliwatts_feed_the_clamp:
  assumes "handle_ret (lib st) i = SUCCESS"
    and "mode_q (dev (lib st) i) = (FEATURE_ENABLED, SUCCESS)"
    and "constraints_q (dev (lib st) i) = ((minMW, maxMW), SUCCESS)"
  shows "(\<exists>v. write_of st i w = [(i, v)] \<and>
              unat v = spec_clamp (unat minMW) (unat maxMW) ((unat w * 1000) mod 2 ^ 32)) \<and>
         (704 < unat minMW \<longrightarrow>
            (\<exists>w'. 2 ^ 32 \<le> unat w' * 1000 \<and> unat maxMW < unat w' * 1000 \<and>
                  write_of st i w' = [(i, minMW)]))"
proof
  show "\<exists>v. write_of st i w = [(i, v)] \<and>
            unat v = spec_clamp (unat minMW) (unat maxMW) ((unat w * 1000) mod 2 ^ 32)"
    by (simp add: write_of_enabled [OF assms] clamp_word_nat unat_milliwatts)
next
  show "704 < unat minMW \<longrightarrow>
          (\<exists>w'. 2 ^ 32 \<le> unat w' * 1000 \<and> unat maxMW < unat w' * 1000 \<and>
                write_of st i w' = [(i, minMW)])"
  proof
    assume big: "704 < unat minMW"
    have wrap: "(4294968 :: u32) * 1000 = 704" by simp
    have small: "(704 :: u32) < minMW" using big by (simp add: word_less_nat_alt)
    have "write_of st i 4294968 =
            [(i, if (4294968 :: u32) * 1000 < minMW then minMW
                 else if maxMW < 4294968 * 1000 then maxMW else 4294968 * 1000)]"
      by (rule write_of_enabled [OF assms])
    with small have w: "write_of st i 4294968 = [(i, minMW)]"
      unfolding wrap by simp
    have "unat maxMW < 2 ^ 32" using unsigned_less [of maxMW] by simp
    then have "unat maxMW < unat (4294968 :: u32) * 1000" by simp
    with w show "\<exists>w'. 2 ^ 32 \<le> unat w' * 1000 \<and> unat maxMW < unat w' * 1000 \<and>
                write_of st i w' = [(i, minMW)]"
      by (intro exI [of _ "4294968 :: u32"]) simp
  qed
qed

text \<open>C10 on a request of 4294968 W against bounds of 100 W and 300 W.\<close>

theorem wrapped_milliwatts_feed_the_clamp_witness:
  "handle_ret (lib one_gpu) 0 = SUCCESS \<and>
   mode_q (dev (lib one_gpu) 0) = (FEATURE_ENABLED, SUCCESS) \<and>
   constraints_q (dev (lib one_gpu) 0) = ((100000, 300000), SUCCESS) \<and>
   (704 :: nat) < unat (100000 :: u32) \<and>
   (\<exists>v. write_of one_gpu 0 4294968 = [(0, v)] \<and>
        unat v = spec_clamp 100000 300000 ((4294968 * 1000) mod 2 ^ 32)) \<and>
   (\<exists>w'. 2 ^ 32 \<le> unat w' * 1000 \<and> (300000 :: nat) < unat w' * 1000 \<and>
         write_of one_gpu 0 w' = [(0, 100000)])"
proof -
  have h: "handle_ret (lib one_gpu) 0 = SUCCESS" by (simp add: demo_defs)
  have m: "mode_q (dev (lib one_gpu) 0) = (FEATURE_ENABLED, SUCCESS)" by (simp add: demo_defs)
  have c: "constraints_q (dev (lib one_gpu) 0) = ((100000, 300000), SUCCESS)"
    by (simp add: demo_defs)
  from wrapped_milliwatts_feed_the_clamp [OF h m c, of 4294968] h m c show ?thesis by simp
qed

end
